theory Spec2Isabelle
  imports
    Main
    "HOL-Library.Char_ord"
    "HOL-Library.List_Lexorder"
    "HOL-Library.Multiset"
    "HOL-Library.Product_Lexorder"
begin

section \<open>Routine Finder: the filter-and-sort core of app.js\<close>

text \<open>
  The development embeds the query logic of the Routine Finder page: \<open>currentFilters\<close>,
  \<open>hasAnyFilter\<close>, \<open>applyFilters\<close>, \<open>dayOrder\<close>, \<open>slotOrder\<close>, the comparator and
  the three exits of \<open>render\<close>, and the population of the six select boxes in \<open>init\<close>.
  Fetching, local storage, HTML escaping and event wiring are not modelled.

  Conventions of the embedding.
  \<^item> A JavaScript string is a \<open>string\<close>; the characters are read as ASCII. Lower-casing
    touches \<open>A\<close>..\<open>Z\<close> only and white space is the six ASCII white-space characters.
  \<^item> A field of a row is a JSON primitive or is absent (\<open>VUndefined\<close>). Numbers are the
    integers (exact in a double below \<open>2^53\<close>); nested arrays and objects are left out.
  \<^item> An exception is the \<open>Inl\<close> branch of a sum. The only one that the modelled code can
    raise is the \<open>TypeError\<close> of calling \<open>localeCompare\<close> on a value that is not a string.
  \<^item> \<open>String.prototype.localeCompare\<close> depends on the host's locale; it is a parameter
    \<open>lc\<close> of the comparator and of \<open>render\<close>.
\<close>

subsection \<open>JavaScript values and the conversions the code relies on\<close>

datatype jsval = VUndefined | VNull | VBool bool | VNum int | VStr string

datatype error = TypeError

text \<open>The result of an arithmetic expression: a number or \<open>NaN\<close>.\<close>

datatype number = Finite int | NaN

definition digit_char :: "nat \<Rightarrow> char" where
  "digit_char n = char_of (48 + n)"

function decimal :: "nat \<Rightarrow> string" where
  "decimal n = (if n < 10 then [digit_char n] else decimal (n div 10) @ [digit_char (n mod 10)])"
  by pat_completeness auto
termination
  by (relation "measure (\<lambda>n. n)") auto

declare decimal.simps [simp del]

text \<open>\<open>ToString\<close> of the language, on the primitives.\<close>

fun ToString :: "jsval \<Rightarrow> string" where
  "ToString VUndefined = ''undefined''"
| "ToString VNull = ''null''"
| "ToString (VBool b) = (if b then ''true'' else ''false'')"
| "ToString (VNum i) = (if i < 0 then CHR ''-'' # decimal (nat (- i)) else decimal (nat i))"
| "ToString (VStr s) = s"

text \<open>\<open>Boolean(v)\<close>: the truthiness that \<open>filter(Boolean)\<close>, \<open>||\<close> and \<open>!\<close> test.\<close>

fun Boolean :: "jsval \<Rightarrow> bool" where
  "Boolean VUndefined = False"
| "Boolean VNull = False"
| "Boolean (VBool b) = b"
| "Boolean (VNum i) = (i \<noteq> 0)"
| "Boolean (VStr s) = (s \<noteq> [])"

text \<open>\<open>v || ""\<close>.\<close>

definition or_empty :: "jsval \<Rightarrow> jsval" where
  "or_empty v = (if Boolean v then v else VStr [])"

subsection \<open>String primitives\<close>

definition isSpace :: "char \<Rightarrow> bool" where
  "isSpace c = (c \<in> set [CHR 0x09, CHR 0x0A, CHR 0x0B, CHR 0x0C, CHR 0x0D, CHR '' ''])"

definition isDigit :: "char \<Rightarrow> bool" where
  "isDigit c = (CHR ''0'' \<le> c \<and> c \<le> CHR ''9'')"

definition lower_char :: "char \<Rightarrow> char" where
  "lower_char c = (if CHR ''A'' \<le> c \<and> c \<le> CHR ''Z'' then char_of (of_char c + (32::nat)) else c)"

definition toLowerCase :: "string \<Rightarrow> string" where
  "toLowerCase s = map lower_char s"

definition trim :: "string \<Rightarrow> string" where
  "trim s = rev (dropWhile isSpace (rev (dropWhile isSpace s)))"

text \<open>\<open>hay.includes(needle)\<close>: the needle starts at some index of the haystack.\<close>

fun String_includes :: "string \<Rightarrow> string \<Rightarrow> bool" where
  "String_includes [] needle = (needle = [])"
| "String_includes (c # cs) needle =
     (take (length needle) (c # cs) = needle \<or> String_includes cs needle)"

text \<open>\<open>Array.prototype.join\<close>: \<open>undefined\<close> and \<open>null\<close> elements give the empty string.\<close>

fun join_text :: "jsval \<Rightarrow> string" where
  "join_text VUndefined = []"
| "join_text VNull = []"
| "join_text v = ToString v"

fun join :: "string \<Rightarrow> jsval list \<Rightarrow> string" where
  "join sep [] = []"
| "join sep [v] = join_text v"
| "join sep (v # w # vs) = join_text v @ sep @ join sep (w # vs)"

text \<open>\<open>Number(m[1])\<close> on a run of decimal digits.\<close>

definition digit_value :: "char \<Rightarrow> int" where
  "digit_value c = int (of_char c) - 48"

definition Number :: "string \<Rightarrow> int" where
  "Number ds = foldl (\<lambda>n c. 10 * n + digit_value c) 0 ds"

subsection \<open>Rows, inputs and filters\<close>

record row =
  Day :: jsval
  Time_Slot :: jsval
  Course_Code :: jsval
  Teacher :: jsval
  Semester_Section :: jsval
  Room :: jsval

text \<open>The \<open>value\<close> of the text input and of the six select boxes of \<open>els\<close>.\<close>

record els =
  q_value :: string
  day_value :: string
  slot_value :: string
  course_value :: string
  teacher_value :: string
  semsec_value :: string
  room_value :: string

record filters =
  q :: string
  day :: string
  slot :: string
  course :: string
  teacher :: string
  semsec :: string
  room :: string

definition currentFilters :: "els \<Rightarrow> filters" where
  "currentFilters e =
     \<lparr> q = toLowerCase (trim (q_value e)),
       day = day_value e,
       slot = slot_value e,
       course = course_value e,
       teacher = teacher_value e,
       semsec = semsec_value e,
       room = room_value e \<rparr>"

definition hasAnyFilter :: "els \<Rightarrow> bool" where
  "hasAnyFilter e =
     (let f = currentFilters e
      in list_ex (\<lambda>v. v \<noteq> []) [q f, day f, slot f, course f, teacher f, semsec f, room f])"

subsection \<open>Filtering\<close>

definition matchQ :: "filters \<Rightarrow> row \<Rightarrow> bool" where
  "matchQ f r =
     (q f = [] \<or>
      String_includes
        (toLowerCase
          (join '' '' [Day r, Time_Slot r, Course_Code r, Teacher r, Semester_Section r, Room r]))
        (q f))"

definition applyFilters :: "els \<Rightarrow> row list \<Rightarrow> row list" where
  "applyFilters e rows =
     (let f = currentFilters e
      in filter (\<lambda>r.
           matchQ f r \<and>
           (day f = [] \<or> Day r = VStr (day f)) \<and>
           (slot f = [] \<or> Time_Slot r = VStr (slot f)) \<and>
           (course f = [] \<or> Course_Code r = VStr (course f)) \<and>
           (teacher f = [] \<or> Teacher r = VStr (teacher f)) \<and>
           (semsec f = [] \<or> Semester_Section r = VStr (semsec f)) \<and>
           (room f = [] \<or> Room r = VStr (room f))) rows)"

subsection \<open>Ordering primitives\<close>

definition DAY_ORDER :: "(string \<times> int) list" where
  "DAY_ORDER =
     [(''Sunday'', 1), (''Monday'', 2), (''Tuesday'', 3), (''Wednesday'', 4),
      (''Thursday'', 5), (''Friday'', 6), (''Saturday'', 7)]"

text \<open>
  \<open>DAY_ORDER\<close> is an object literal, so a lookup that misses its own seven keys goes on to
  \<open>Object.prototype\<close>. These are the names found there; each is bound to a function or an
  object, which \<open>??\<close> does not replace.
\<close>

definition Object_prototype :: "string list" where
  "Object_prototype =
     [''constructor'', ''hasOwnProperty'', ''isPrototypeOf'', ''propertyIsEnumerable'',
      ''toLocaleString'', ''toString'', ''valueOf'', ''__proto__'',
      ''__defineGetter__'', ''__defineSetter__'', ''__lookupGetter__'', ''__lookupSetter__'']"

text \<open>
  \<open>dayOrder(day)\<close> is only ever an operand of \<open>-\<close>; an inherited member converts to
  \<open>NaN\<close> there, which is what the model returns for it.
\<close>

definition dayOrder :: "jsval \<Rightarrow> number" where
  "dayOrder d =
     (case map_of DAY_ORDER (ToString d) of
        Some n \<Rightarrow> Finite n
      | None \<Rightarrow> if ToString d \<in> set Object_prototype then NaN else Finite 99)"

fun number_minus :: "number \<Rightarrow> number \<Rightarrow> number" where
  "number_minus (Finite a) (Finite b) = Finite (a - b)"
| "number_minus _ _ = NaN"

text \<open>
  The pattern \<open>/slot\s*(\d+)/i\<close> tried at the start of a string: the result is the text
  of the capture group. \<open>\s*\<close> and \<open>\d+\<close> are greedy and match disjoint characters, so
  backtracking never finds a match that the greedy attempt misses.
\<close>

definition slot_match :: "string \<Rightarrow> string option" where
  "slot_match s =
     (if toLowerCase (take 4 s) = ''slot''
      then (let ds = takeWhile isDigit (dropWhile isSpace (drop 4 s))
            in if ds = [] then None else Some ds)
      else None)"

text \<open>\<open>exec\<close> without the \<open>g\<close> flag: the leftmost index at which the pattern matches.\<close>

fun regexp_exec :: "string \<Rightarrow> string option" where
  "regexp_exec [] = None"
| "regexp_exec (c # cs) =
     (case slot_match (c # cs) of Some m \<Rightarrow> Some m | None \<Rightarrow> regexp_exec cs)"

definition slotOrder :: "jsval \<Rightarrow> int" where
  "slotOrder sl =
     (case regexp_exec (ToString (or_empty sl)) of Some m \<Rightarrow> Number m | None \<Rightarrow> 9999)"

subsection \<open>Array.prototype.sort\<close>

text \<open>
  The language requires \<open>sort\<close> to be stable and reads a comparator result of \<open>NaN\<close> as
  \<open>0\<close>. For a consistent comparator the outcome is fixed by these two requirements; it is
  computed here by stable insertion from the right. An exception of the comparator ends
  the sort.
\<close>

fun sort_value :: "number \<Rightarrow> int" where
  "sort_value (Finite v) = v"
| "sort_value NaN = 0"

fun insert_by :: "('a \<Rightarrow> 'a \<Rightarrow> error + number) \<Rightarrow> 'a \<Rightarrow> 'a list \<Rightarrow> error + 'a list" where
  "insert_by cmp x [] = Inr [x]"
| "insert_by cmp x (y # ys) =
     (case cmp x y of
        Inl err \<Rightarrow> Inl err
      | Inr v \<Rightarrow>
          if sort_value v \<le> 0 then Inr (x # y # ys)
          else (case insert_by cmp x ys of Inl err \<Rightarrow> Inl err | Inr zs \<Rightarrow> Inr (y # zs)))"

fun Array_sort :: "('a \<Rightarrow> 'a \<Rightarrow> error + number) \<Rightarrow> 'a list \<Rightarrow> error + 'a list" where
  "Array_sort cmp [] = Inr []"
| "Array_sort cmp (x # xs) =
     (case Array_sort cmp xs of Inl err \<Rightarrow> Inl err | Inr ys \<Rightarrow> insert_by cmp x ys)"

subsection \<open>render\<close>

text \<open>\<open>recv.localeCompare(arg)\<close>: only a string has the method.\<close>

fun localeCompare :: "(string \<Rightarrow> string \<Rightarrow> int) \<Rightarrow> jsval \<Rightarrow> jsval \<Rightarrow> error + number" where
  "localeCompare lc (VStr s) arg = Inr (Finite (lc s (ToString arg)))"
| "localeCompare lc _ arg = Inl TypeError"

definition compareRows :: "(string \<Rightarrow> string \<Rightarrow> int) \<Rightarrow> row \<Rightarrow> row \<Rightarrow> error + number" where
  "compareRows lc a b =
     (if Day a \<noteq> Day b then Inr (number_minus (dayOrder (Day a)) (dayOrder (Day b)))
      else
        (let sa = slotOrder (Time_Slot a); sb = slotOrder (Time_Slot b)
         in if sa \<noteq> sb then Inr (Finite (sa - sb))
            else localeCompare lc (or_empty (Course_Code a)) (or_empty (Course_Code b))))"

text \<open>
  What \<open>render\<close> leaves on the page: the table body is blank, or the one-line
  "No matches" notice, or one table row per entry; the counter holds a text.
\<close>

datatype tbody = Blank | NoMatches | Rows "row list"

record page =
  tbody_innerHTML :: tbody
  count_textContent :: string

definition render :: "(string \<Rightarrow> string \<Rightarrow> int) \<Rightarrow> els \<Rightarrow> row list \<Rightarrow> error + page" where
  "render lc e rows =
     (if \<not> hasAnyFilter e
      then Inr \<lparr> tbody_innerHTML = Blank,
                 count_textContent = ''Select a filter to view routine'' \<rparr>
      else
        (case Array_sort (compareRows lc) (applyFilters e rows) of
           Inl err \<Rightarrow> Inl err
         | Inr filtered \<Rightarrow>
             Inr \<lparr> tbody_innerHTML = (if filtered = [] then NoMatches else Rows filtered),
                    count_textContent = decimal (length filtered) @ '' class(es) found'' \<rparr>))"

text \<open>The rows on display.\<close>

fun shown :: "page \<Rightarrow> row list" where
  "shown p = (case tbody_innerHTML p of Rows rs \<Rightarrow> rs | _ \<Rightarrow> [])"

subsection \<open>init: the options of the six select boxes\<close>

text \<open>\<open>new Set(arr)\<close> read back with \<open>Array.from\<close>: first occurrences, in order.\<close>

definition Set_from :: "'a list \<Rightarrow> 'a list" where
  "Set_from arr = fold (\<lambda>v acc. if v \<in> set acc then acc else acc @ [v]) arr []"

definition uniq :: "jsval list \<Rightarrow> jsval list" where
  "uniq arr = Set_from (filter Boolean arr)"

text \<open>The comparator of \<open>sort()\<close> called without an argument: code-unit order of the texts.\<close>

definition default_compare :: "jsval \<Rightarrow> jsval \<Rightarrow> error + number" where
  "default_compare a b =
     Inr (Finite (if ToString a < ToString b then - 1 else if ToString b < ToString a then 1 else 0))"

record selects =
  day_options :: "jsval list"
  slot_options :: "jsval list"
  course_options :: "jsval list"
  teacher_options :: "jsval list"
  semsec_options :: "jsval list"
  room_options :: "jsval list"

definition init :: "row list \<Rightarrow> error + selects" where
  "init rows =
     (case Array_sort (\<lambda>a b. Inr (number_minus (dayOrder a) (dayOrder b))) (uniq (map Day rows)) of
        Inl err \<Rightarrow> Inl err
      | Inr days \<Rightarrow>
     (case Array_sort (\<lambda>a b. Inr (Finite (slotOrder a - slotOrder b))) (uniq (map Time_Slot rows)) of
        Inl err \<Rightarrow> Inl err
      | Inr slots \<Rightarrow>
     (case Array_sort default_compare (uniq (map Course_Code rows)) of
        Inl err \<Rightarrow> Inl err
      | Inr courses \<Rightarrow>
     (case Array_sort default_compare (uniq (map Teacher rows)) of
        Inl err \<Rightarrow> Inl err
      | Inr teachers \<Rightarrow>
     (case Array_sort default_compare (uniq (map Semester_Section rows)) of
        Inl err \<Rightarrow> Inl err
      | Inr semsecs \<Rightarrow>
     (case Array_sort default_compare (uniq (map Room rows)) of
        Inl err \<Rightarrow> Inl err
      | Inr rooms \<Rightarrow>
          Inr \<lparr> day_options = days, slot_options = slots, course_options = courses,
                 teacher_options = teachers, semsec_options = semsecs,
                 room_options = rooms \<rparr>))))))"

subsection \<open>Vocabulary of the specification\<close>

text \<open>
  The definitions of this subsection are not taken from the program. They name the
  notions in which the properties below are stated, and fix the sample data on which the
  theorems are exercised.
\<close>

text \<open>The page before any filter is chosen: nothing in the table, the prompt in the counter.\<close>

definition inactive :: page where
  "inactive = \<lparr> tbody_innerHTML = Blank, count_textContent = ''Select a filter to view routine'' \<rparr>"

text \<open>The six field texts of a row, joined by single spaces; an absent field gives no text.\<close>

definition row_text :: "row \<Rightarrow> string" where
  "row_text r =
     join_text (Day r) @ '' '' @ join_text (Time_Slot r) @ '' '' @ join_text (Course_Code r) @ '' '' @
     join_text (Teacher r) @ '' '' @ join_text (Semester_Section r) @ '' '' @ join_text (Room r)"

text \<open>A field of the data model: free-form text, or absent.\<close>

fun text_value :: "jsval \<Rightarrow> bool" where
  "text_value (VStr s) = True"
| "text_value VUndefined = True"
| "text_value _ = False"

definition text_row :: "row \<Rightarrow> bool" where
  "text_row r \<longleftrightarrow>
     text_value (Day r) \<and> text_value (Time_Slot r) \<and> text_value (Course_Code r) \<and>
     text_value (Teacher r) \<and> text_value (Semester_Section r) \<and> text_value (Room r)"

text \<open>Reading an absent field as the empty string.\<close>

fun absent_as_empty :: "jsval \<Rightarrow> jsval" where
  "absent_as_empty VUndefined = VStr []"
| "absent_as_empty v = v"

definition normalize_row :: "row \<Rightarrow> row" where
  "normalize_row r =
     \<lparr> Day = absent_as_empty (Day r), Time_Slot = absent_as_empty (Time_Slot r),
       Course_Code = absent_as_empty (Course_Code r), Teacher = absent_as_empty (Teacher r),
       Semester_Section = absent_as_empty (Semester_Section r), Room = absent_as_empty (Room r) \<rparr>"

fun normalize_page :: "page \<Rightarrow> page" where
  "normalize_page p =
     p\<lparr> tbody_innerHTML :=
          (case tbody_innerHTML p of Rows rs \<Rightarrow> Rows (map normalize_row rs) | b \<Rightarrow> b) \<rparr>"

text \<open>
  At index \<open>i\<close> of \<open>s\<close> the word "slot" begins, in any mix of cases, followed by white
  space (possibly none) and then by the digits \<open>ds\<close>, which end there.
\<close>

definition slot_number_at :: "string \<Rightarrow> nat \<Rightarrow> string \<Rightarrow> bool" where
  "slot_number_at s i ds \<longleftrightarrow>
     (\<exists>w sp rest. drop i s = w @ sp @ ds @ rest \<and> toLowerCase w = ''slot'' \<and>
        (\<forall>c\<in>set sp. isSpace c) \<and> ds \<noteq> [] \<and> (\<forall>c\<in>set ds. isDigit c) \<and>
        (rest = [] \<or> \<not> isDigit (hd rest)))"



text \<open>Properties of a comparator on a set of elements, used to reason about the sort.\<close>

definition agrees_with :: "('a \<Rightarrow> 'a \<Rightarrow> error + number) \<Rightarrow> ('a \<Rightarrow> 'k::linorder) \<Rightarrow> 'a set \<Rightarrow> bool" where
  "agrees_with c key S \<longleftrightarrow>
     (\<forall>x\<in>S. \<forall>y\<in>S. \<forall>v. c x y = Inr v \<longrightarrow>
        (key x < key y \<longrightarrow> sort_value v \<le> 0) \<and> (key y < key x \<longrightarrow> 0 < sort_value v))"



text \<open>Sample data: a collation by code units, the untouched inputs, a row of three texts.\<close>

definition ordinal_compare :: "string \<Rightarrow> string \<Rightarrow> int" where
  "ordinal_compare s t = (if s < t then - 1 else if t < s then 1 else 0)"

definition no_input :: els where
  "no_input =
     \<lparr> q_value = [], day_value = [], slot_value = [], course_value = [],
       teacher_value = [], semsec_value = [], room_value = [] \<rparr>"

definition sample_row :: "jsval \<Rightarrow> jsval \<Rightarrow> jsval \<Rightarrow> row" where
  "sample_row d s c =
     \<lparr> Day = d, Time_Slot = s, Course_Code = c, Teacher = VUndefined,
       Semester_Section = VUndefined, Room = VUndefined \<rparr>"

definition room_row :: "jsval \<Rightarrow> row" where
  "room_row v =
     \<lparr> Day = VUndefined, Time_Slot = VUndefined, Course_Code = VUndefined, Teacher = VUndefined,
       Semester_Section = VUndefined, Room = v \<rparr>"

section \<open>Auxiliary facts\<close>

subsection \<open>Strings\<close>

lemma String_includes_iff: "String_includes hay needle \<longleftrightarrow> (\<exists>ps ss. hay = ps @ needle @ ss)"
proof (induction hay)
  case Nil
  then show ?case by auto
next
  case (Cons c cs)
  show ?case
  proof
    assume "String_includes (c # cs) needle"
    then consider "take (length needle) (c # cs) = needle" | "String_includes cs needle" by auto
    then show "\<exists>ps ss. c # cs = ps @ needle @ ss"
    proof cases
      case 1
      then have "c # cs = [] @ needle @ drop (length needle) (c # cs)"
        by (metis append_Nil append_take_drop_id)
      then show ?thesis by blast
    next
      case 2
      then obtain ps ss where "cs = ps @ needle @ ss" using Cons.IH by blast
      then have "c # cs = (c # ps) @ needle @ ss" by simp
      then show ?thesis by blast
    qed
  next
    assume "\<exists>ps ss. c # cs = ps @ needle @ ss"
    then obtain ps ss where eq: "c # cs = ps @ needle @ ss" by blast
    show "String_includes (c # cs) needle"
    proof (cases ps)
      case Nil
      then have "take (length needle) (c # cs) = needle" using eq by simp
      then show ?thesis by simp
    next
      case (Cons p ps')
      then have "cs = ps' @ needle @ ss" using eq by simp
      then show ?thesis using Cons.IH by auto
    qed
  qed
qed

lemma dropWhile_all: "\<forall>c\<in>set ws. P c \<Longrightarrow> dropWhile P (ws @ s) = dropWhile P s"
  by (induction ws) auto




subsection \<open>The sort\<close>

lemma insert_by_mset: "insert_by c x ys = Inr zs \<Longrightarrow> mset zs = add_mset x (mset ys)"
  by (induction ys arbitrary: zs) (auto split: sum.splits if_splits)

lemma Array_sort_mset: "Array_sort c xs = Inr ys \<Longrightarrow> mset ys = mset xs"
  by (induction xs arbitrary: ys) (auto split: sum.splits dest: insert_by_mset)

lemma insert_by_set: "insert_by c x ys = Inr zs \<Longrightarrow> set zs = insert x (set ys)"
  by (drule insert_by_mset) (metis set_mset_mset set_mset_add_mset_insert)

lemma Array_sort_set: "Array_sort c xs = Inr ys \<Longrightarrow> set ys = set xs"
  by (drule Array_sort_mset) (rule mset_eq_setD)

lemma Array_sort_distinct: "Array_sort c xs = Inr ys \<Longrightarrow> distinct ys = distinct xs"
  by (drule Array_sort_mset) (metis mset_eq_imp_distinct_iff)

lemma Array_sort_length: "Array_sort c xs = Inr ys \<Longrightarrow> length ys = length xs"
  by (drule Array_sort_mset) (rule mset_eq_length)

text \<open>A comparator that never raises on the elements lets the sort finish.\<close>

lemma insert_by_total:
  "\<forall>y\<in>set ys. \<exists>v. c x y = Inr v \<Longrightarrow> \<exists>zs. insert_by c x ys = Inr zs"
  by (induction ys) (auto split: sum.splits)

lemma Array_sort_total:
  "\<forall>x\<in>set xs. \<forall>y\<in>set xs. \<exists>v. c x y = Inr v \<Longrightarrow> \<exists>ys. Array_sort c xs = Inr ys"
proof (induction xs)
  case Nil
  then show ?case by simp
next
  case (Cons x xs)
  then obtain ys where ys: "Array_sort c xs = Inr ys" by auto
  then have "set ys = set xs" by (rule Array_sort_set)
  then have "\<forall>y\<in>set ys. \<exists>v. c x y = Inr v" using Cons.prems by simp
  then have "\<exists>zs. insert_by c x ys = Inr zs" by (rule insert_by_total)
  then obtain zs where "insert_by c x ys = Inr zs" by blast
  then show ?case using ys by simp
qed

text \<open>Sortedness by a key with which the comparator agrees.\<close>

lemma insert_by_sorted:
  assumes "insert_by c x ys = Inr zs" "sorted (map key ys)" "agrees_with c key (insert x (set ys))"
  shows "sorted (map key zs)"
  using assms
proof (induction ys arbitrary: zs)
  case Nil
  then show ?case by auto
next
  case (Cons y ys)
  from Cons.prems(1) obtain v where v: "c x y = Inr v" by (auto split: sum.splits)
  have r: "(key x < key y \<longrightarrow> sort_value v \<le> 0) \<and> (key y < key x \<longrightarrow> 0 < sort_value v)"
    using Cons.prems(3) v unfolding agrees_with_def by auto
  show ?case
  proof (cases "sort_value v \<le> 0")
    case True
    then have zs: "zs = x # y # ys" using Cons.prems(1) v by simp
    have "key x \<le> key y" using r True by (meson not_le)
    then show ?thesis using Cons.prems(2) zs by auto
  next
    case False
    then obtain zs' where zs': "insert_by c x ys = Inr zs'" "zs = y # zs'"
      using Cons.prems(1) v by (auto split: sum.splits)
    have "agrees_with c key (insert x (set ys))"
      using Cons.prems(3) unfolding agrees_with_def by auto
    then have s: "sorted (map key zs')" using Cons.IH zs'(1) Cons.prems(2) by auto
    have "key y \<le> key x" using r False by (meson not_le)
    moreover have "set zs' = insert x (set ys)" using zs'(1) by (rule insert_by_set)
    ultimately show ?thesis using s Cons.prems(2) zs'(2) by auto
  qed
qed

lemma Array_sort_sorted:
  assumes "Array_sort c xs = Inr ys" "agrees_with c key (set xs)"
  shows "sorted (map key ys)"
  using assms
proof (induction xs arbitrary: ys)
  case Nil
  then show ?case by simp
next
  case (Cons x xs)
  then obtain ys' where ys': "Array_sort c xs = Inr ys'" "insert_by c x ys' = Inr ys"
    by (auto split: sum.splits)
  have "agrees_with c key (set xs)" using Cons.prems(2) unfolding agrees_with_def by auto
  then have "sorted (map key ys')" using Cons.IH ys'(1) by blast
  moreover have "set ys' = set xs" using ys'(1) by (rule Array_sort_set)
  ultimately show ?case using insert_by_sorted [OF ys'(2)] Cons.prems(2) by simp
qed

lemma sorted_map_index:
  assumes "sorted (map key ys)" "i < length ys" "j < length ys" "key (ys ! j) < key (ys ! i)"
  shows "j < i"
proof (rule ccontr)
  assume "\<not> j < i"
  then have "i \<le> j" by simp
  then have "map key ys ! i \<le> map key ys ! j"
    using assms(1,3) by (simp add: sorted_iff_nth_mono del: nth_map)
  then show False using assms(2,3,4) by simp
qed





subsection \<open>render and applyFilters\<close>

lemma render_active:
  assumes "hasAnyFilter e" "render lc e rows = Inr p"
  shows "Array_sort (compareRows lc) (applyFilters e rows) = Inr (shown p)"
    and "count_textContent p = decimal (length (shown p)) @ '' class(es) found''"
  using assms by (auto simp: render_def split: sum.splits)

lemma render_inactive: "\<not> hasAnyFilter e \<Longrightarrow> render lc e rows = Inr inactive"
  by (simp add: render_def inactive_def)

lemma hasAnyFilter_iff:
  "hasAnyFilter e \<longleftrightarrow>
     trim (q_value e) \<noteq> [] \<or> day_value e \<noteq> [] \<or> slot_value e \<noteq> [] \<or> course_value e \<noteq> [] \<or>
     teacher_value e \<noteq> [] \<or> semsec_value e \<noteq> [] \<or> room_value e \<noteq> []"
  by (auto simp: hasAnyFilter_def currentFilters_def toLowerCase_def)

lemma applyFilters_subset: "set (applyFilters e rows) \<subseteq> set rows"
  by (simp add: applyFilters_def Let_def)

lemma join_row_text:
  "join '' '' [Day r, Time_Slot r, Course_Code r, Teacher r, Semester_Section r, Room r] = row_text r"
  by (simp add: row_text_def)

subsection \<open>The slot rank\<close>

lemma isDigit_not_isSpace: "isDigit c \<Longrightarrow> \<not> isSpace c"
  by (auto simp: isDigit_def isSpace_def)

lemma toLowerCase_slot_length: "toLowerCase w = ''slot'' \<Longrightarrow> length w = 4"
proof -
  assume "toLowerCase w = ''slot''"
  then have "length (map lower_char w) = length ''slot''" by (simp add: toLowerCase_def)
  then show ?thesis by simp
qed

lemma takeWhile_run:
  assumes "\<forall>c\<in>set ds. P c" "rest = [] \<or> \<not> P (hd rest)"
  shows "takeWhile P (ds @ rest) = ds"
proof (cases rest)
  case Nil
  then show ?thesis using assms(1) by simp
next
  case (Cons r rs)
  then have "\<not> P r" using assms(2) by simp
  then show ?thesis using assms(1) Cons by (simp add: takeWhile_append2)
qed

lemma dropWhile_run:
  assumes "\<forall>c\<in>set sp. P c" "t \<noteq> []" "\<not> P (hd t)"
  shows "dropWhile P (sp @ t) = t"
proof -
  have "dropWhile P (sp @ t) = dropWhile P t" using assms(1) by (rule dropWhile_all)
  also have "\<dots> = t" using assms(2,3) by (cases t) auto
  finally show ?thesis .
qed

lemma slot_number_at_iff: "slot_number_at s i ds \<longleftrightarrow> slot_match (drop i s) = Some ds"
proof
  assume "slot_number_at s i ds"
  then obtain w sp rest where d: "drop i s = w @ sp @ ds @ rest" and w: "toLowerCase w = ''slot''"
    and sp: "\<forall>c\<in>set sp. isSpace c" and ds: "ds \<noteq> []" "\<forall>c\<in>set ds. isDigit c"
    and rest: "rest = [] \<or> \<not> isDigit (hd rest)"
    unfolding slot_number_at_def by blast
  have lw: "length w = 4" using w by (rule toLowerCase_slot_length)
  have t: "take 4 (drop i s) = w" using d lw by simp
  have r: "drop 4 (drop i s) = sp @ ds @ rest" using d lw by simp
  have "isDigit (hd ds)" using ds by (cases ds) auto
  then have "\<not> isSpace (hd (ds @ rest))" using ds(1) by (simp add: isDigit_not_isSpace)
  then have "dropWhile isSpace (sp @ ds @ rest) = ds @ rest"
    using sp ds(1) by (intro dropWhile_run) auto
  moreover have "takeWhile isDigit (ds @ rest) = ds" using ds(2) rest by (rule takeWhile_run)
  ultimately show "slot_match (drop i s) = Some ds"
    using ds(1) w unfolding slot_match_def t r by (simp add: Let_def)
next
  assume m: "slot_match (drop i s) = Some ds"
  let ?t = "drop i s"
  let ?r = "dropWhile isSpace (drop 4 ?t)"
  from m have w: "toLowerCase (take 4 ?t) = ''slot''"
    and ds: "ds = takeWhile isDigit ?r" "ds \<noteq> []"
    unfolding slot_match_def by (auto simp: Let_def split: if_splits)
  have "?t = take 4 ?t @ drop 4 ?t" by (simp only: append_take_drop_id)
  also have "drop 4 ?t = takeWhile isSpace (drop 4 ?t) @ ?r" by (simp only: takeWhile_dropWhile_id)
  also have "?r = ds @ dropWhile isDigit ?r" unfolding ds(1) by (simp only: takeWhile_dropWhile_id)
  finally have "?t = take 4 ?t @ takeWhile isSpace (drop 4 ?t) @ ds @ dropWhile isDigit ?r" .
  moreover have "\<forall>c\<in>set (takeWhile isSpace (drop 4 ?t)). isSpace c"
    by (auto dest: set_takeWhileD)
  moreover have "\<forall>c\<in>set ds. isDigit c" unfolding ds(1) by (auto dest: set_takeWhileD)
  moreover have "dropWhile isDigit ?r = [] \<or> \<not> isDigit (hd (dropWhile isDigit ?r))"
    by (metis hd_dropWhile)
  ultimately show "slot_number_at s i ds"
    unfolding slot_number_at_def using w ds(2) by blast
qed

lemma slot_match_Nil: "slot_match [] = None"
  by (simp add: slot_match_def toLowerCase_def)

lemma regexp_exec_hit: "slot_match t = Some ds \<Longrightarrow> regexp_exec t = Some ds"
  by (cases t) (auto simp: slot_match_Nil)

lemma regexp_exec_skip:
  "\<forall>j<i. slot_match (drop j s) = None \<Longrightarrow> regexp_exec s = regexp_exec (drop i s)"
proof (induction s arbitrary: i)
  case Nil
  then show ?case by simp
next
  case (Cons c cs)
  show ?case
  proof (cases i)
    case 0
    then show ?thesis by simp
  next
    case (Suc k)
    have "slot_match (drop 0 (c # cs)) = None" using Cons.prems Suc by blast
    then have 1: "regexp_exec (c # cs) = regexp_exec cs" by simp
    have "\<forall>j<k. slot_match (drop j cs) = None"
    proof (intro allI impI)
      fix j assume "j < k"
      then have "slot_match (drop (Suc j) (c # cs)) = None" using Cons.prems Suc by blast
      then show "slot_match (drop j cs) = None" by simp
    qed
    then have "regexp_exec cs = regexp_exec (drop k cs)" by (rule Cons.IH)
    then show ?thesis using 1 Suc by simp
  qed
qed

lemma regexp_exec_first:
  assumes "slot_match (drop i s) = Some ds" "\<forall>j<i. slot_match (drop j s) = None"
  shows "regexp_exec s = Some ds"
  using regexp_exec_skip [OF assms(2)] regexp_exec_hit [OF assms(1)] by simp

lemma regexp_exec_none: "\<forall>i. slot_match (drop i s) = None \<Longrightarrow> regexp_exec s = None"
proof -
  assume a: "\<forall>i. slot_match (drop i s) = None"
  then have "regexp_exec s = regexp_exec (drop (length s) s)" by (intro regexp_exec_skip) simp
  then show ?thesis by simp
qed

lemma ToString_or_empty_VStr: "ToString (or_empty (VStr s)) = s"
  by (simp add: or_empty_def)

lemma slotOrder_first:
  assumes "slot_number_at s i ds" "\<forall>j<i. \<forall>ds'. \<not> slot_number_at s j ds'"
  shows "slotOrder (VStr s) = Number ds"
proof -
  have 1: "slot_match (drop i s) = Some ds" using assms(1) by (simp add: slot_number_at_iff)
  have 2: "\<forall>j<i. slot_match (drop j s) = None"
  proof (intro allI impI)
    fix j assume "j < i"
    then have "\<forall>ds'. slot_match (drop j s) \<noteq> Some ds'"
      using assms(2) by (simp add: slot_number_at_iff)
    then show "slot_match (drop j s) = None" by (cases "slot_match (drop j s)") auto
  qed
  have "regexp_exec s = Some ds" using 1 2 by (rule regexp_exec_first)
  then show ?thesis by (simp add: slotOrder_def ToString_or_empty_VStr)
qed

lemma slotOrder_unranked:
  assumes "\<forall>i ds. \<not> slot_number_at s i ds"
  shows "slotOrder (VStr s) = 9999"
proof -
  have "\<forall>i. slot_match (drop i s) = None"
  proof
    fix i
    have "\<forall>ds'. slot_match (drop i s) \<noteq> Some ds'" using assms by (simp add: slot_number_at_iff)
    then show "slot_match (drop i s) = None" by (cases "slot_match (drop i s)") auto
  qed
  then have "regexp_exec s = None" by (rule regexp_exec_none)
  then show ?thesis by (simp add: slotOrder_def ToString_or_empty_VStr)
qed








subsection \<open>The options of the select boxes\<close>

lemma fold_Set_from:
  "set (fold (\<lambda>v acc. if v \<in> set acc then acc else acc @ [v]) arr acc0) = set acc0 \<union> set arr \<and>
   (distinct acc0 \<longrightarrow> distinct (fold (\<lambda>v acc. if v \<in> set acc then acc else acc @ [v]) arr acc0))"
  by (induction arr arbitrary: acc0) auto

lemma set_Set_from: "set (Set_from arr) = set arr"
  by (simp add: Set_from_def fold_Set_from)

lemma distinct_Set_from: "distinct (Set_from arr)"
  by (simp add: Set_from_def fold_Set_from)

lemma set_uniq: "set (uniq arr) = {v \<in> set arr. Boolean v}"
  by (auto simp: uniq_def set_Set_from)

lemma distinct_uniq: "distinct (uniq arr)"
  by (simp add: uniq_def distinct_Set_from)

text \<open>The comparators of \<open>init\<close> never raise, so each of its sorts returns.\<close>

lemma sort_returns:
  assumes "\<And>a b. \<exists>v. c a b = Inr v"
  shows "\<exists>ys. Array_sort c xs = Inr ys"
  using assms by (intro Array_sort_total) blast

lemma init_returns: "\<exists>sel. init rows = Inr sel"
proof -
  obtain days where 1: "Array_sort (\<lambda>a b. Inr (number_minus (dayOrder a) (dayOrder b))) (uniq (map Day rows)) = Inr days"
    using sort_returns [of "\<lambda>a b. Inr (number_minus (dayOrder a) (dayOrder b))"] by blast
  obtain slots where 2: "Array_sort (\<lambda>a b. Inr (Finite (slotOrder a - slotOrder b))) (uniq (map Time_Slot rows)) = Inr slots"
    using sort_returns [of "\<lambda>a b. Inr (Finite (slotOrder a - slotOrder b))"] by blast
  have d: "\<And>a b. \<exists>v. default_compare a b = Inr v" by (simp add: default_compare_def)
  obtain courses where 3: "Array_sort default_compare (uniq (map Course_Code rows)) = Inr courses"
    using sort_returns [of default_compare, OF d] by blast
  obtain teachers where 4: "Array_sort default_compare (uniq (map Teacher rows)) = Inr teachers"
    using sort_returns [of default_compare, OF d] by blast
  obtain semsecs where 5: "Array_sort default_compare (uniq (map Semester_Section rows)) = Inr semsecs"
    using sort_returns [of default_compare, OF d] by blast
  obtain rooms where 6: "Array_sort default_compare (uniq (map Room rows)) = Inr rooms"
    using sort_returns [of default_compare, OF d] by blast
  show ?thesis unfolding init_def by (simp add: 1 2 3 4 5 6)
qed

lemma init_sorts:
  assumes "init rows = Inr sel"
  shows "Array_sort (\<lambda>a b. Inr (number_minus (dayOrder a) (dayOrder b))) (uniq (map Day rows)) = Inr (day_options sel)"
    and "Array_sort (\<lambda>a b. Inr (Finite (slotOrder a - slotOrder b))) (uniq (map Time_Slot rows)) = Inr (slot_options sel)"
    and "Array_sort default_compare (uniq (map Course_Code rows)) = Inr (course_options sel)"
    and "Array_sort default_compare (uniq (map Teacher rows)) = Inr (teacher_options sel)"
    and "Array_sort default_compare (uniq (map Semester_Section rows)) = Inr (semsec_options sel)"
    and "Array_sort default_compare (uniq (map Room rows)) = Inr (room_options sel)"
  using assms unfolding init_def by (auto split: sum.splits)

lemma sorted_uniq:
  assumes "Array_sort c (uniq (map f rows)) = Inr opts"
  shows "(\<forall>v. v \<in> set opts \<longleftrightarrow> Boolean v \<and> v \<in> f ` set rows) \<and> distinct opts"
proof -
  have "set opts = set (uniq (map f rows))" using assms by (rule Array_sort_set)
  moreover have "distinct opts = distinct (uniq (map f rows))" using assms by (rule Array_sort_distinct)
  ultimately show ?thesis by (auto simp: set_uniq distinct_uniq)
qed

lemma slot_options_sorted:
  assumes "init rows = Inr sel"
  shows "sorted (map slotOrder (slot_options sel))"
proof -
  have "agrees_with (\<lambda>a b. Inr (Finite (slotOrder a - slotOrder b))) slotOrder
          (set (uniq (map Time_Slot rows)))"
    unfolding agrees_with_def by auto
  with init_sorts(2) [OF assms] show ?thesis by (rule Array_sort_sorted)
qed

lemma slot_options_order:
  assumes "init rows = Inr sel" "m < length (slot_options sel)" "n < length (slot_options sel)"
    "slotOrder (slot_options sel ! n) < slotOrder (slot_options sel ! m)"
  shows "n < m"
  using slot_options_sorted [OF assms(1)] assms(2,3,4) by (rule sorted_map_index)

subsection \<open>The comparator of render\<close>

lemma or_empty_text: "text_value v \<Longrightarrow> \<exists>s. or_empty v = VStr s"
  by (cases v) (auto simp: or_empty_def)

lemma compareRows_returns:
  assumes "text_value (Course_Code a)"
  shows "\<exists>v. compareRows lc a b = Inr v"
proof -
  obtain s where "or_empty (Course_Code a) = VStr s" using assms or_empty_text by blast
  then show ?thesis by (simp add: compareRows_def Let_def)
qed

lemma render_returns:
  assumes "\<forall>r\<in>set rows. text_row r"
  shows "\<exists>p. render lc e rows = Inr p"
proof (cases "hasAnyFilter e")
  case False
  then show ?thesis by (simp add: render_def)
next
  case True
  have "\<forall>a\<in>set (applyFilters e rows). \<forall>b\<in>set (applyFilters e rows). \<exists>v. compareRows lc a b = Inr v"
    using assms applyFilters_subset [of e rows] by (auto simp: text_row_def intro: compareRows_returns)
  then obtain ys where "Array_sort (compareRows lc) (applyFilters e rows) = Inr ys"
    using Array_sort_total by blast
  then show ?thesis using True by (simp add: render_def)
qed





text \<open>Reading absent fields as empty strings.\<close>

lemma join_text_absent: "join_text (absent_as_empty v) = join_text v"
  by (cases v) auto

lemma row_text_normalize: "row_text (normalize_row r) = row_text r"
  by (simp add: row_text_def normalize_row_def join_text_absent)

lemma absent_eq_VStr: "s \<noteq> [] \<Longrightarrow> (absent_as_empty v = VStr s) = (v = VStr s)"
  by (cases v) auto

lemma applyFilters_normalize:
  "applyFilters e (map normalize_row rows) = map normalize_row (applyFilters e rows)"
proof -
  have "matchQ f (normalize_row r) = matchQ f r" for f r
    unfolding matchQ_def join_row_text row_text_normalize ..
  moreover have "(s = [] \<or> absent_as_empty v = VStr s) = (s = [] \<or> v = VStr s)" for s v
    using absent_eq_VStr by blast
  ultimately show ?thesis
    by (simp add: applyFilters_def Let_def filter_map comp_def normalize_row_def)
qed

lemma dayOrder_absent: "dayOrder (absent_as_empty v) = dayOrder v"
  by (cases v) (simp_all add: dayOrder_def DAY_ORDER_def Object_prototype_def)

lemma or_empty_absent: "or_empty (absent_as_empty v) = or_empty v"
  by (cases v) (simp_all add: or_empty_def)

lemma slotOrder_absent: "slotOrder (absent_as_empty v) = slotOrder v"
  by (simp add: slotOrder_def or_empty_absent)

lemma normalize_row_sel:
  "Day (normalize_row r) = absent_as_empty (Day r)"
  "Time_Slot (normalize_row r) = absent_as_empty (Time_Slot r)"
  "Course_Code (normalize_row r) = absent_as_empty (Course_Code r)"
  by (simp_all add: normalize_row_def)

lemma compareRows_normalize:
  assumes "(absent_as_empty (Day a) = absent_as_empty (Day b)) = (Day a = Day b)"
  shows "compareRows lc (normalize_row a) (normalize_row b) = compareRows lc a b"
  unfolding compareRows_def normalize_row_sel dayOrder_absent slotOrder_absent or_empty_absent assms
  by (rule refl)

lemma insert_by_map:
  assumes "\<forall>y\<in>set ys. c' (f x) (f y) = c x y"
  shows "insert_by c' (f x) (map f ys) = map_sum (\<lambda>err. err) (map f) (insert_by c x ys)"
  using assms by (induction ys) (auto split: sum.splits)

lemma Array_sort_map:
  assumes "\<forall>x\<in>set xs. \<forall>y\<in>set xs. c' (f x) (f y) = c x y"
  shows "Array_sort c' (map f xs) = map_sum (\<lambda>err. err) (map f) (Array_sort c xs)"
  using assms
proof (induction xs)
  case Nil
  then show ?case by simp
next
  case (Cons x xs)
  have "\<forall>x\<in>set xs. \<forall>y\<in>set xs. c' (f x) (f y) = c x y" using Cons.prems by simp
  then have ih: "Array_sort c' (map f xs) = map_sum (\<lambda>err. err) (map f) (Array_sort c xs)"
    by (rule Cons.IH)
  show ?case
  proof (cases "Array_sort c xs")
    case (Inl err)
    then show ?thesis using ih by simp
  next
    case (Inr ys)
    then have "set ys = set xs" by (rule Array_sort_set)
    then have "\<forall>y\<in>set ys. c' (f x) (f y) = c x y" using Cons.prems by simp
    then have "insert_by c' (f x) (map f ys) = map_sum (\<lambda>err. err) (map f) (insert_by c x ys)"
      by (rule insert_by_map)
    then show ?thesis using ih Inr by simp
  qed
qed

lemma absent_Day_eq:
  assumes "\<not> (VUndefined \<in> Day ` S \<and> VStr [] \<in> Day ` S)" "a \<in> S" "b \<in> S"
  shows "(absent_as_empty (Day a) = absent_as_empty (Day b)) = (Day a = Day b)"
  using assms by (cases "Day a"; cases "Day b") force+

lemma render_normalize:
  assumes "\<not> (VUndefined \<in> Day ` set rows \<and> VStr [] \<in> Day ` set rows)"
  shows "render lc e (map normalize_row rows) = map_sum (\<lambda>err. err) normalize_page (render lc e rows)"
proof (cases "hasAnyFilter e")
  case False
  then show ?thesis by (simp add: render_def)
next
  case True
  let ?m = "applyFilters e rows"
  have "\<forall>a\<in>set ?m. \<forall>b\<in>set ?m. compareRows lc (normalize_row a) (normalize_row b) = compareRows lc a b"
    using absent_Day_eq [OF assms] applyFilters_subset [of e rows]
    by (auto intro!: compareRows_normalize)
  then have "Array_sort (compareRows lc) (map normalize_row ?m)
      = map_sum (\<lambda>err. err) (map normalize_row) (Array_sort (compareRows lc) ?m)"
    by (rule Array_sort_map)
  then show ?thesis using True
    by (cases "Array_sort (compareRows lc) ?m") (auto simp: render_def applyFilters_normalize)
qed

subsection \<open>Further facts used by the properties\<close>

lemma slot_match_short: "length s < 4 \<Longrightarrow> slot_match s = None"
proof -
  assume a: "length s < 4"
  have "toLowerCase (take 4 s) \<noteq> ''slot''"
  proof
    assume "toLowerCase (take 4 s) = ''slot''"
    then have "length (take 4 s) = 4" by (rule toLowerCase_slot_length)
    then show False using a by simp
  qed
  then show ?thesis by (simp add: slot_match_def)
qed

lemma no_slot_number_short: "length s < 4 \<Longrightarrow> \<not> slot_number_at s i ds"
  by (simp add: slot_number_at_iff slot_match_short)


lemma filter_Boolean_absent:
  assumes "\<And>r. f (g r) = absent_as_empty (f r)"
  shows "filter Boolean (map f (map g rows)) = filter Boolean (map f rows)"
proof (induction rows)
  case Nil
  then show ?case by simp
next
  case (Cons r rows)
  then show ?case using assms [of r] by (cases "f r") auto
qed

lemma init_normalize: "init (map normalize_row rows) = init rows"
proof -
  have "uniq (map f (map normalize_row rows)) = uniq (map f rows)"
    if "\<And>r. f (normalize_row r) = absent_as_empty (f r)" for f
    unfolding uniq_def using that by (simp only: filter_Boolean_absent)
  then have "uniq (map Day (map normalize_row rows)) = uniq (map Day rows)"
    "uniq (map Time_Slot (map normalize_row rows)) = uniq (map Time_Slot rows)"
    "uniq (map Course_Code (map normalize_row rows)) = uniq (map Course_Code rows)"
    "uniq (map Teacher (map normalize_row rows)) = uniq (map Teacher rows)"
    "uniq (map Semester_Section (map normalize_row rows)) = uniq (map Semester_Section rows)"
    "uniq (map Room (map normalize_row rows)) = uniq (map Room rows)"
    by (simp_all add: normalize_row_def)
  then show ?thesis unfolding init_def by (simp only:)
qed

section \<open>The properties\<close>

text \<open>
  C1. With at least one predicate set, a row is among the matches exactly when it is a row
  of the collection and every set predicate holds for it: the trimmed, lower-cased query
  text occurs in the lower-cased \<open>row_text\<close>, and each chosen select value equals the
  row's field as a string. The rows that \<open>render\<close> shows are these matches, each as
  often as it is matched, so they all come from the collection; and \<open>render\<close> does
  return a page when the fields of the rows are texts or absent.
\<close>

theorem C1_matches_all_active_predicates:
  assumes "hasAnyFilter e"
  shows "(r \<in> set (applyFilters e rows) \<longleftrightarrow>
          r \<in> set rows \<and>
          (trim (q_value e) \<noteq> [] \<longrightarrow>
             (\<exists>ps ss. toLowerCase (row_text r) = ps @ toLowerCase (trim (q_value e)) @ ss)) \<and>
          (day_value e \<noteq> [] \<longrightarrow> Day r = VStr (day_value e)) \<and>
          (slot_value e \<noteq> [] \<longrightarrow> Time_Slot r = VStr (slot_value e)) \<and>
          (course_value e \<noteq> [] \<longrightarrow> Course_Code r = VStr (course_value e)) \<and>
          (teacher_value e \<noteq> [] \<longrightarrow> Teacher r = VStr (teacher_value e)) \<and>
          (semsec_value e \<noteq> [] \<longrightarrow> Semester_Section r = VStr (semsec_value e)) \<and>
          (room_value e \<noteq> [] \<longrightarrow> Room r = VStr (room_value e))) \<and>
         (\<forall>p. render lc e rows = Inr p \<longrightarrow>
            mset (shown p) = mset (applyFilters e rows) \<and> set (shown p) \<subseteq> set rows) \<and>
         ((\<forall>r\<in>set rows. text_row r) \<longrightarrow> (\<exists>p. render lc e rows = Inr p))"
proof -
  have q0: "(toLowerCase (trim (q_value e)) = []) = (trim (q_value e) = [])"
    by (simp add: toLowerCase_def)
  have A: "r \<in> set (applyFilters e rows) \<longleftrightarrow>
          r \<in> set rows \<and>
          (trim (q_value e) \<noteq> [] \<longrightarrow>
             (\<exists>ps ss. toLowerCase (row_text r) = ps @ toLowerCase (trim (q_value e)) @ ss)) \<and>
          (day_value e \<noteq> [] \<longrightarrow> Day r = VStr (day_value e)) \<and>
          (slot_value e \<noteq> [] \<longrightarrow> Time_Slot r = VStr (slot_value e)) \<and>
          (course_value e \<noteq> [] \<longrightarrow> Course_Code r = VStr (course_value e)) \<and>
          (teacher_value e \<noteq> [] \<longrightarrow> Teacher r = VStr (teacher_value e)) \<and>
          (semsec_value e \<noteq> [] \<longrightarrow> Semester_Section r = VStr (semsec_value e)) \<and>
          (room_value e \<noteq> [] \<longrightarrow> Room r = VStr (room_value e))"
    unfolding applyFilters_def matchQ_def currentFilters_def Let_def join_row_text
      String_includes_iff
    by (simp add: q0) blast
  have B: "mset (shown p) = mset (applyFilters e rows) \<and> set (shown p) \<subseteq> set rows"
    if r: "render lc e rows = Inr p" for p
  proof -
    have "Array_sort (compareRows lc) (applyFilters e rows) = Inr (shown p)"
      using assms r by (rule render_active(1))
    then have m: "mset (shown p) = mset (applyFilters e rows)" by (rule Array_sort_mset)
    then have "set (shown p) = set (applyFilters e rows)" by (rule mset_eq_setD)
    then have "set (shown p) \<subseteq> set rows" using applyFilters_subset [of e rows] by (simp only:)
    with m show ?thesis by (simp only: simp_thms)
  qed
  have C: "(\<forall>r\<in>set rows. text_row r) \<longrightarrow> (\<exists>p. render lc e rows = Inr p)"
    using render_returns by blast
  from A B C show ?thesis by blast
qed

theorem C1_matches_all_active_predicates_witness:
  "hasAnyFilter (no_input\<lparr>q_value := ''cse'', day_value := ''Sunday''\<rparr>) \<and>
   sample_row (VStr ''Sunday'') (VStr ''Slot 1'') (VStr ''CSE101'')
     \<in> set (applyFilters (no_input\<lparr>q_value := ''cse'', day_value := ''Sunday''\<rparr>)
          [sample_row (VStr ''Monday'') (VStr ''Slot 1'') (VStr ''CSE101''),
           sample_row (VStr ''Sunday'') (VStr ''Slot 1'') (VStr ''CSE101'')]) \<and>
   render ordinal_compare (no_input\<lparr>q_value := ''cse'', day_value := ''Sunday''\<rparr>)
     [sample_row (VStr ''Monday'') (VStr ''Slot 1'') (VStr ''CSE101''),
      sample_row (VStr ''Sunday'') (VStr ''Slot 1'') (VStr ''CSE101'')]
   = Inr \<lparr> tbody_innerHTML = Rows [sample_row (VStr ''Sunday'') (VStr ''Slot 1'') (VStr ''CSE101'')],
           count_textContent = ''1 class(es) found'' \<rparr>"
proof -
  let ?e = "no_input\<lparr>q_value := ''cse'', day_value := ''Sunday''\<rparr>"
  let ?r = "sample_row (VStr ''Sunday'') (VStr ''Slot 1'') (VStr ''CSE101'')"
  have a: "hasAnyFilter ?e"
    by (simp add: hasAnyFilter_iff no_input_def)
  have t: "trim (q_value ?e) = ''cse''"
    by (simp add: trim_def isSpace_def no_input_def)
  have l: "toLowerCase (row_text ?r) = ''sunday slot 1 cse101   ''"
    by code_simp
  have "toLowerCase (row_text ?r) = ''sunday slot 1 '' @ toLowerCase (trim (q_value ?e)) @ ''101   ''"
    unfolding l t by code_simp
  then have s: "\<exists>ps ss. toLowerCase (row_text ?r) = ps @ toLowerCase (trim (q_value ?e)) @ ss"
    by blast
  have d: "Day ?r = VStr (day_value ?e)" "slot_value ?e = []" "course_value ?e = []"
    "teacher_value ?e = []" "semsec_value ?e = []" "room_value ?e = []"
    by (simp_all add: sample_row_def no_input_def)
  have ev: "render ordinal_compare ?e
     [sample_row (VStr ''Monday'') (VStr ''Slot 1'') (VStr ''CSE101''), ?r]
   = Inr \<lparr> tbody_innerHTML = Rows [?r], count_textContent = ''1 class(es) found'' \<rparr>"
    by code_simp
  have "?r \<in> set (applyFilters ?e
          [sample_row (VStr ''Monday'') (VStr ''Slot 1'') (VStr ''CSE101''), ?r])"
    using a s d
      C1_matches_all_active_predicates [OF a, where r = ?r and lc = ordinal_compare
        and rows = "[sample_row (VStr ''Monday'') (VStr ''Slot 1'') (VStr ''CSE101''), ?r]"]
    by simp
  with a ev show ?thesis by (intro conjI)
qed

text \<open>
  C2. Two matched rows whose Day values differ but have the same weekday rank (here
  \<open>Holiday\<close> and the empty text, both of rank 99) are left in their input order, although the
  first has the larger slot rank: the comparator answers \<open>99 - 99\<close> for them and never
  reaches the slot ranks. A sort by weekday rank, then slot rank, would put the
  \<open>Slot 1\<close> row first.
\<close>

theorem C2_equal_rank_days_skip_the_slot_key:
  "render lc (no_input\<lparr>q_value := ''slot''\<rparr>)
     [sample_row (VStr ''Holiday'') (VStr ''Slot 2'') (VStr ''CSE101''),
      sample_row (VStr '''') (VStr ''Slot 1'') (VStr ''CSE101'')]
   = Inr \<lparr> tbody_innerHTML =
             Rows [sample_row (VStr ''Holiday'') (VStr ''Slot 2'') (VStr ''CSE101''),
                   sample_row (VStr '''') (VStr ''Slot 1'') (VStr ''CSE101'')],
           count_textContent = ''2 class(es) found'' \<rparr> \<and>
   dayOrder (VStr ''Holiday'') = Finite 99 \<and> dayOrder (VStr '''') = Finite 99 \<and>
   slotOrder (VStr ''Slot 1'') < slotOrder (VStr ''Slot 2'')"
  by code_simp

text \<open>
  C3. When none of the seven predicates of the filter state is set, \<open>render\<close> shows no
  row and leaves the page in the \<open>inactive\<close> state, whatever the rows are; and no query
  with a predicate set ever produces that state.
\<close>

theorem C3_no_filter_is_inactive:
  assumes "q (currentFilters e) = []" "day (currentFilters e) = []" "slot (currentFilters e) = []"
    "course (currentFilters e) = []" "teacher (currentFilters e) = []"
    "semsec (currentFilters e) = []" "room (currentFilters e) = []"
  shows "render lc e rows = Inr inactive \<and> shown inactive = [] \<and>
         (\<forall>e' rows'. hasAnyFilter e' \<longrightarrow> render lc e' rows' \<noteq> Inr inactive)"
proof -
  have "\<not> hasAnyFilter e" using assms by (simp add: hasAnyFilter_def)
  then have "render lc e rows = Inr inactive" by (rule render_inactive)
  moreover have "shown inactive = []" by (simp add: inactive_def)
  moreover have "render lc e' rows' \<noteq> Inr inactive" if h: "hasAnyFilter e'" for e' rows'
  proof
    assume r: "render lc e' rows' = Inr inactive"
    have "count_textContent inactive = decimal (length (shown inactive)) @ '' class(es) found''"
      using h r by (rule render_active(2))
    then have "last (count_textContent inactive) = CHR ''d''" by simp
    then show False by (simp add: inactive_def)
  qed
  ultimately show ?thesis by blast
qed

theorem C3_no_filter_is_inactive_witness:
  "q (currentFilters no_input) = [] \<and> day (currentFilters no_input) = [] \<and>
   render ordinal_compare no_input [sample_row (VStr ''Sunday'') (VStr ''Slot 1'') (VStr ''CSE101'')]
     = Inr inactive \<and>
   render ordinal_compare (no_input\<lparr>course_value := ''CSE101''\<rparr>) [] \<noteq> Inr inactive"
proof -
  have h: "q (currentFilters no_input) = []" "day (currentFilters no_input) = []"
    "slot (currentFilters no_input) = []" "course (currentFilters no_input) = []"
    "teacher (currentFilters no_input) = []" "semsec (currentFilters no_input) = []"
    "room (currentFilters no_input) = []"
    by (simp_all add: currentFilters_def no_input_def trim_def toLowerCase_def)
  have a: "hasAnyFilter (no_input\<lparr>course_value := ''CSE101''\<rparr>)"
    by (simp add: hasAnyFilter_iff no_input_def)
  show ?thesis
    using h(1,2) a
      C3_no_filter_is_inactive [OF h, where lc = ordinal_compare
        and rows = "[sample_row (VStr ''Sunday'') (VStr ''Slot 1'') (VStr ''CSE101'')]"]
    by blast
qed

text \<open>
  C4. \<open>init\<close> always returns, and each of the six option lists holds exactly the truthy
  values of its field that occur in the rows (for a text: the non-empty ones), each once.
\<close>

theorem C4_options_are_the_values_present:
  "\<exists>sel. init rows = Inr sel \<and>
     (\<forall>v. v \<in> set (day_options sel) \<longleftrightarrow> Boolean v \<and> v \<in> Day ` set rows) \<and>
     distinct (day_options sel) \<and>
     (\<forall>v. v \<in> set (slot_options sel) \<longleftrightarrow> Boolean v \<and> v \<in> Time_Slot ` set rows) \<and>
     distinct (slot_options sel) \<and>
     (\<forall>v. v \<in> set (course_options sel) \<longleftrightarrow> Boolean v \<and> v \<in> Course_Code ` set rows) \<and>
     distinct (course_options sel) \<and>
     (\<forall>v. v \<in> set (teacher_options sel) \<longleftrightarrow> Boolean v \<and> v \<in> Teacher ` set rows) \<and>
     distinct (teacher_options sel) \<and>
     (\<forall>v. v \<in> set (semsec_options sel) \<longleftrightarrow> Boolean v \<and> v \<in> Semester_Section ` set rows) \<and>
     distinct (semsec_options sel) \<and>
     (\<forall>v. v \<in> set (room_options sel) \<longleftrightarrow> Boolean v \<and> v \<in> Room ` set rows) \<and>
     distinct (room_options sel)"
proof -
  obtain sel where sel: "init rows = Inr sel" using init_returns by blast
  note s = init_sorts [OF sel]
  note u = sorted_uniq [OF s(1)] sorted_uniq [OF s(2)] sorted_uniq [OF s(3)]
      sorted_uniq [OF s(4)] sorted_uniq [OF s(5)] sorted_uniq [OF s(6)]
  show ?thesis
    by (rule exI [of _ sel]) (simp only: sel u simp_thms)
qed

theorem C4_options_are_the_values_present_witness:
  "init [room_row (VStr ''101''), room_row (VStr ''''), room_row (VStr ''101''), room_row (VStr ''204'')]
     = Inr \<lparr> day_options = [], slot_options = [], course_options = [], teacher_options = [],
             semsec_options = [], room_options = [VStr ''101'', VStr ''204''] \<rparr> \<and>
   (\<exists>sel. init [room_row (VStr ''101''), room_row (VStr ''''), room_row (VStr ''101''),
               room_row (VStr ''204'')] = Inr sel \<and>
      VStr ''204'' \<in> set (room_options sel) \<and> VStr '''' \<notin> set (room_options sel) \<and>
      distinct (room_options sel))"
proof -
  let ?rows = "[room_row (VStr ''101''), room_row (VStr ''''), room_row (VStr ''101''),
                room_row (VStr ''204'')]"
  have ev: "init ?rows
     = Inr \<lparr> day_options = [], slot_options = [], course_options = [], teacher_options = [],
             semsec_options = [], room_options = [VStr ''101'', VStr ''204''] \<rparr>"
    by code_simp
  obtain sel where sel: "init ?rows = Inr sel"
    and mem: "\<forall>v. v \<in> set (room_options sel) \<longleftrightarrow> Boolean v \<and> v \<in> Room ` set ?rows"
    and dis: "distinct (room_options sel)"
    using C4_options_are_the_values_present [of ?rows] by (elim exE conjE) (rule that)
  have r: "Room (room_row (VStr ''204'')) = VStr ''204''" by (simp add: room_row_def)
  have "room_row (VStr ''204'') \<in> set ?rows" by (simp only: list.set insert_iff simp_thms)
  then have "Room (room_row (VStr ''204'')) \<in> Room ` set ?rows" by (rule imageI)
  then have "VStr ''204'' \<in> Room ` set ?rows" unfolding r .
  moreover have "Boolean (VStr ''204'')" by simp
  ultimately have a: "VStr ''204'' \<in> set (room_options sel)" using mem by blast
  have "\<not> Boolean (VStr '''')" by simp
  then have b: "VStr '''' \<notin> set (room_options sel)" using mem by blast
  have "\<exists>sel. init ?rows = Inr sel \<and>
      VStr ''204'' \<in> set (room_options sel) \<and> VStr '''' \<notin> set (room_options sel) \<and>
      distinct (room_options sel)"
    using sel a b dis by (intro exI [of _ sel] conjI)
  with ev show ?thesis by (rule conjI)
qed




text \<open>
  C6 (as amended). A Time Slot text in which no number follows "slot" has the rank 9999.
  A text whose first number after "slot" is below 9999 has a smaller rank and stands
  before it among the slot options.
\<close>

theorem C6_unranked_slots_rank_9999:
  assumes "\<forall>i ds. \<not> slot_number_at s i ds"
    and "slot_number_at t i ds" "\<forall>j<i. \<forall>ds'. \<not> slot_number_at t j ds'"
    and "Number ds < 9999"
  shows "slotOrder (VStr s) = 9999 \<and> slotOrder (VStr t) < slotOrder (VStr s) \<and>
    (\<forall>sel m n. init rows = Inr sel \<and> m < length (slot_options sel) \<and> n < length (slot_options sel) \<and>
        slot_options sel ! m = VStr s \<and> slot_options sel ! n = VStr t \<longrightarrow> n < m)"
proof -
  have s: "slotOrder (VStr s) = 9999" using assms(1) by (rule slotOrder_unranked)
  have t: "slotOrder (VStr t) = Number ds" using assms(2,3) by (rule slotOrder_first)
  have lt: "slotOrder (VStr t) < slotOrder (VStr s)" using s t assms(4) by simp
  have "n < m" if "init rows = Inr sel" "m < length (slot_options sel)" "n < length (slot_options sel)"
    "slot_options sel ! m = VStr s" "slot_options sel ! n = VStr t" for sel m n
    using that(1,2,3) lt unfolding that(4,5) [symmetric] by (rule slot_options_order)
  then show ?thesis using s lt by blast
qed

theorem C6_unranked_slots_rank_9999_witness:
  "slot_number_at ''Slot 2'' 0 ''2'' \<and> Number ''2'' < 9999 \<and>
   slotOrder (VStr ''TBA'') = 9999 \<and> slotOrder (VStr ''Slot 2'') < slotOrder (VStr ''TBA'') \<and>
   init [sample_row VUndefined (VStr ''TBA'') VUndefined,
         sample_row VUndefined (VStr ''Slot 2'') VUndefined]
   = Inr \<lparr> day_options = [], slot_options = [VStr ''Slot 2'', VStr ''TBA''],
           course_options = [], teacher_options = [], semsec_options = [], room_options = [] \<rparr>"
proof -
  have u: "\<forall>i ds. \<not> slot_number_at ''TBA'' i ds"
    by (simp add: no_slot_number_short)
  have a: "slot_number_at ''Slot 2'' 0 ''2''"
    unfolding slot_number_at_iff by code_simp
  have b: "\<forall>j<0. \<forall>ds'. \<not> slot_number_at ''Slot 2'' j ds'" by simp
  have c: "Number ''2'' < 9999" by code_simp
  have ev: "init [sample_row VUndefined (VStr ''TBA'') VUndefined,
         sample_row VUndefined (VStr ''Slot 2'') VUndefined]
   = Inr \<lparr> day_options = [], slot_options = [VStr ''Slot 2'', VStr ''TBA''],
           course_options = [], teacher_options = [], semsec_options = [], room_options = [] \<rparr>"
    by code_simp
  note t = C6_unranked_slots_rank_9999 [OF u a b c, where rows = "[]"]
  have r1: "slotOrder (VStr ''TBA'') = 9999" using t by (rule conjunct1)
  have r2: "slotOrder (VStr ''Slot 2'') < slotOrder (VStr ''TBA'')"
    using t by (rule conjunct2 [THEN conjunct1])
  from a c r1 r2 ev show ?thesis by (intro conjI)
qed

theorem C6_sentinel_counterexample:
  "regexp_exec ''TBA'' = None \<and> regexp_exec ''Slot 10000'' = Some ''10000'' \<and>
   slotOrder (VStr ''TBA'') = 9999 \<and> slotOrder (VStr ''Slot 10000'') = 10000 \<and>
   init [sample_row VUndefined (VStr ''Slot 10000'') VUndefined,
         sample_row VUndefined (VStr ''TBA'') VUndefined]
   = Inr \<lparr> day_options = [], slot_options = [VStr ''TBA'', VStr ''Slot 10000''],
           course_options = [], teacher_options = [], semsec_options = [], room_options = [] \<rparr>"
  by code_simp

text \<open>
  C7 (as amended). \<open>init\<close> returns for every row collection, and \<open>render\<close> returns for
  every filter state when the fields of the rows are texts or absent. Reading absent
  fields as empty texts changes neither the options nor the matches; it does not change
  what \<open>render\<close> shows either, unless the collection holds both a row without Day and a
  row whose Day is the empty text.
\<close>

theorem C7_total_on_text_rows:
  "(\<exists>sel. init rows = Inr sel) \<and>
   ((\<forall>r\<in>set rows. text_row r) \<longrightarrow> (\<exists>p. render lc e rows = Inr p)) \<and>
   init (map normalize_row rows) = init rows \<and>
   applyFilters e (map normalize_row rows) = map normalize_row (applyFilters e rows) \<and>
   (\<not> (VUndefined \<in> Day ` set rows \<and> VStr [] \<in> Day ` set rows) \<longrightarrow>
      render lc e (map normalize_row rows) = map_sum (\<lambda>err. err) normalize_page (render lc e rows))"
proof (intro conjI impI)
  show "\<exists>sel. init rows = Inr sel" by (rule init_returns)
  show "\<exists>p. render lc e rows = Inr p" if "\<forall>r\<in>set rows. text_row r"
    using that by (rule render_returns)
  show "init (map normalize_row rows) = init rows" by (rule init_normalize)
  show "applyFilters e (map normalize_row rows) = map normalize_row (applyFilters e rows)"
    by (rule applyFilters_normalize)
  show "render lc e (map normalize_row rows) = map_sum (\<lambda>err. err) normalize_page (render lc e rows)"
    if "\<not> (VUndefined \<in> Day ` set rows \<and> VStr [] \<in> Day ` set rows)"
    using that by (rule render_normalize)
qed

theorem C7_total_on_text_rows_witness:
  "list_all text_row
     [sample_row VUndefined (VStr ''Slot 2'') (VStr ''CSE101''),
      sample_row (VStr ''Sunday'') VUndefined VUndefined] \<and>
   render ordinal_compare (no_input\<lparr>q_value := ''s''\<rparr>)
     [sample_row VUndefined (VStr ''Slot 2'') (VStr ''CSE101''),
      sample_row (VStr ''Sunday'') VUndefined VUndefined]
   = Inr \<lparr> tbody_innerHTML =
             Rows [sample_row (VStr ''Sunday'') VUndefined VUndefined,
                   sample_row VUndefined (VStr ''Slot 2'') (VStr ''CSE101'')],
           count_textContent = ''2 class(es) found'' \<rparr> \<and>
   render ordinal_compare (no_input\<lparr>q_value := ''s''\<rparr>)
     (map normalize_row
       [sample_row VUndefined (VStr ''Slot 2'') (VStr ''CSE101''),
        sample_row (VStr ''Sunday'') VUndefined VUndefined])
   = map_sum (\<lambda>err. err) normalize_page
       (render ordinal_compare (no_input\<lparr>q_value := ''s''\<rparr>)
         [sample_row VUndefined (VStr ''Slot 2'') (VStr ''CSE101''),
          sample_row (VStr ''Sunday'') VUndefined VUndefined])"
proof -
  let ?e = "no_input\<lparr>q_value := ''s''\<rparr>"
  let ?rows = "[sample_row VUndefined (VStr ''Slot 2'') (VStr ''CSE101''),
      sample_row (VStr ''Sunday'') VUndefined VUndefined]"
  have tx: "\<forall>r\<in>set ?rows. text_row r"
    by (simp add: text_row_def sample_row_def)
  have nd: "\<not> (VUndefined \<in> Day ` set ?rows \<and> VStr [] \<in> Day ` set ?rows)"
    by (simp add: sample_row_def)
  note t = C7_total_on_text_rows [where rows = ?rows and e = ?e and lc = ordinal_compare]
  have "(\<forall>r\<in>set ?rows. text_row r) \<longrightarrow> (\<exists>p. render ordinal_compare ?e ?rows = Inr p)"
    using t by (rule conjunct2 [THEN conjunct1])
  then have ex: "\<exists>p. render ordinal_compare ?e ?rows = Inr p" using tx by (rule mp)
  have ev: "render ordinal_compare ?e ?rows
   = Inr \<lparr> tbody_innerHTML =
             Rows [sample_row (VStr ''Sunday'') VUndefined VUndefined,
                   sample_row VUndefined (VStr ''Slot 2'') (VStr ''CSE101'')],
           count_textContent = ''2 class(es) found'' \<rparr>"
    by code_simp
  have "\<not> (VUndefined \<in> Day ` set ?rows \<and> VStr [] \<in> Day ` set ?rows) \<longrightarrow>
      render ordinal_compare ?e (map normalize_row ?rows)
        = map_sum (\<lambda>err. err) normalize_page (render ordinal_compare ?e ?rows)"
    using t by (rule conjunct2 [THEN conjunct2, THEN conjunct2, THEN conjunct2])
  then have nm: "render ordinal_compare ?e (map normalize_row ?rows)
        = map_sum (\<lambda>err. err) normalize_page (render ordinal_compare ?e ?rows)"
    using nd by (rule mp)
  have la: "list_all text_row ?rows" using tx by (simp only: list_all_iff)
  from la ev nm show ?thesis by (intro conjI)
qed

theorem C7_number_field_counterexample:
  "applyFilters (no_input\<lparr>q_value := ''101''\<rparr>)
     [sample_row (VStr ''Sunday'') (VStr ''Slot 1'') (VNum 101)]
     = [sample_row (VStr ''Sunday'') (VStr ''Slot 1'') (VNum 101)] \<and>
   render ordinal_compare (no_input\<lparr>q_value := ''101''\<rparr>)
     [sample_row (VStr ''Sunday'') (VStr ''Slot 1'') (VNum 101),
      sample_row (VStr ''Sunday'') (VStr ''Slot 1'') (VNum 101)] = Inl TypeError"
  by code_simp





text \<open>
  C10. Wherever "slot" begins in a Time Slot text, inside a longer word or not, in any
  mix of cases, with or without white space before the digits: the rank is the number
  \<open>ds\<close> found at the first index \<open>i\<close> at which such an occurrence begins.
\<close>

theorem C10_slot_marker_inside_words:
  assumes "slot_number_at s i ds" "\<forall>j<i. \<forall>ds'. \<not> slot_number_at s j ds'"
  shows "slotOrder (VStr s) = Number ds"
  using assms by (rule slotOrder_first)

theorem C10_slot_marker_inside_words_witness:
  "slot_number_at ''Timeslot3'' 4 ''3'' \<and> slotOrder (VStr ''Timeslot3'') = 3 \<and>
   slot_number_at ''SLOT  7'' 0 ''7'' \<and> slotOrder (VStr ''SLOT  7'') = 7"
proof -
  have a: "slot_number_at ''Timeslot3'' 4 ''3''"
    unfolding slot_number_at_iff by code_simp
  have n: "slot_match (drop 0 ''Timeslot3'') = None" "slot_match (drop 1 ''Timeslot3'') = None"
    "slot_match (drop 2 ''Timeslot3'') = None" "slot_match (drop 3 ''Timeslot3'') = None"
    by code_simp+
  have b: "\<forall>j<4. \<forall>ds'. \<not> slot_number_at ''Timeslot3'' j ds'"
  proof (intro allI impI)
    fix j :: nat and ds'
    assume "j < 4"
    then consider "j = 0" | "j = 1" | "j = 2" | "j = 3" by linarith
    then have "slot_match (drop j ''Timeslot3'') = None"
      by cases (simp_all only: n)
    then show "\<not> slot_number_at ''Timeslot3'' j ds'"
      unfolding slot_number_at_iff by simp
  qed
  have c: "slot_number_at ''SLOT  7'' 0 ''7''"
    unfolding slot_number_at_iff by code_simp
  have d: "\<forall>j<0. \<forall>ds'. \<not> slot_number_at ''SLOT  7'' j ds'" by simp
  have n3: "Number ''3'' = 3" by code_simp
  have n7: "Number ''7'' = 7" by code_simp
  show ?thesis
    using a c C10_slot_marker_inside_words [OF a b] C10_slot_marker_inside_words [OF c d]
    by (simp only: n3 n7 simp_thms)
qed

end
